theory Spec2Isabelle
  imports Complex_Main
begin

section \<open>Device memory\<close>

text \<open>
  The two kernels of \<^verbatim>\<open>matmul.cpp\<close> work on \<^verbatim>\<open>float\<close> buffers. Nothing in
  the kernels relies on an algebraic law of the arithmetic, so an element is a value of
  any type with a zero, an addition and a multiplication (the syntactic classes
  \<open>zero\<close>, \<open>plus\<close> and \<open>times\<close> carry no axioms, hence single-precision arithmetic is
  an instance). A global buffer is a list of elements. A read or a write outside a
  buffer is undefined behaviour in the kernel language; the model makes it the fault
  \<open>OutOfBounds\<close>. Private and local memory start uninitialised: their cells are
  \<open>None\<close> until written, and reading such a cell is the fault \<open>UninitRead\<close>.

  Indices are natural numbers. For matrices as the host allocates them
  (\<^verbatim>\<open>size = N * N\<close> is an \<^verbatim>\<open>int\<close>) every index the kernels compute is below
  \<open>N * N\<close>, so the kernels' \<^verbatim>\<open>int\<close> arithmetic never leaves its range
  (lemma \<open>index_fits_int\<close> below).
\<close>

datatype fault = OutOfBounds | UninitRead

definition rd :: "'a list \<Rightarrow> nat \<Rightarrow> fault + 'a" where
  "rd xs n = (if n < length xs then Inr (xs ! n) else Inl OutOfBounds)"

definition wr :: "'a list \<Rightarrow> nat \<Rightarrow> 'a \<Rightarrow> fault + 'a list" where
  "wr xs n v = (if n < length xs then Inr (xs[n := v]) else Inl OutOfBounds)"

text \<open>
  Work-items of one launch, run one after the other; the first fault ends the launch.
  In both kernels the work-items write disjoint cells of \<open>C\<close>, and none reads a cell
  that another one writes (the scratch buffer is written and never read), so the order
  in which they run does not change what the launch leaves in \<open>C\<close>.
\<close>

fun run_items :: "('w \<Rightarrow> 's \<Rightarrow> fault + 's) \<Rightarrow> 'w list \<Rightarrow> 's \<Rightarrow> fault + 's" where
  "run_items f [] s = Inr s"
| "run_items f (w # ws) s = (case f w s of Inl e \<Rightarrow> Inl e | Inr s' \<Rightarrow> run_items f ws s')"

section \<open>The naive kernel \<^verbatim>\<open>mmul\<close>\<close>

text \<open>
  \<^verbatim>\<open>for (k = 0; k < N; k++) tmp += A[i*N+k] * B[k*N+j];\<close>
  with the loop counter and the accumulator as arguments.
\<close>

function mmul_loop ::
  "nat \<Rightarrow> 'a list \<Rightarrow> 'a list \<Rightarrow> nat \<Rightarrow> nat \<Rightarrow> nat \<Rightarrow> 'a::{zero,plus,times} \<Rightarrow> fault + 'a" where
  "mmul_loop N A B i j k tmp =
     (if k < N then
        (case rd A (i * N + k) of
           Inl e \<Rightarrow> Inl e
         | Inr a \<Rightarrow>
             (case rd B (k * N + j) of
                Inl e \<Rightarrow> Inl e
              | Inr b \<Rightarrow> mmul_loop N A B i j (k + 1) (tmp + a * b)))
      else Inr tmp)"
  by pat_completeness auto
termination
  by (relation "measure (\<lambda>(N, A, B, i, j, k, tmp). N - k)") auto

declare mmul_loop.simps [simp del]

text \<open>The body of the kernel for the work-item with global id \<open>(i, j)\<close>.\<close>

definition mmul ::
  "nat \<Rightarrow> 'a list \<Rightarrow> 'a list \<Rightarrow> nat \<times> nat \<Rightarrow> 'a::{zero,plus,times} list \<Rightarrow> fault + 'a list" where
  "mmul N A B w C =
     (case w of (i, j) \<Rightarrow>
        if i < N \<and> j < N then
          (case mmul_loop N A B i j 0 0 of
             Inl e \<Rightarrow> Inl e
           | Inr tmp \<Rightarrow> wr C (i * N + j) tmp)
        else Inr C)"

text \<open>
  The launch of \<^verbatim>\<open>main\<close>: \<^verbatim>\<open>cl::NDRange global(N, N)\<close>, one work-item for
  each pair of global ids below \<open>N\<close>.
\<close>

definition naive_mmul ::
  "nat \<Rightarrow> 'a list \<Rightarrow> 'a list \<Rightarrow> 'a::{zero,plus,times} list \<Rightarrow> fault + 'a list" where
  "naive_mmul N A B C = run_items (mmul N A B) (List.product [0..<N] [0..<N]) C"

section \<open>The tiled kernel \<^verbatim>\<open>optimized_rowCPerWorkItemAPrivateBLocal_mmul\<close>\<close>

text \<open>Reading a cell of private or local memory.\<close>

definition rd_cell :: "'a option list \<Rightarrow> nat \<Rightarrow> fault + 'a" where
  "rd_cell xs n =
     (if n < length xs then (case xs ! n of None \<Rightarrow> Inl UninitRead | Some v \<Rightarrow> Inr v)
      else Inl OutOfBounds)"

text \<open>
  \<^verbatim>\<open>float Awrk[1024]\<close>: the private row has 1024 cells whatever \<open>N\<close> is, and
  starts uninitialised.
\<close>

definition Awrk_init :: "'a option list" where
  "Awrk_init = replicate 1024 None"

text \<open>\<^verbatim>\<open>for (k = 0; k < N; k++) Awrk[k] = A[i*N + k];\<close>\<close>

function load_row ::
  "nat \<Rightarrow> 'a list \<Rightarrow> nat \<Rightarrow> nat \<Rightarrow> 'a option list \<Rightarrow> fault + 'a option list" where
  "load_row N A i k Awrk =
     (if k < N then
        (case rd A (i * N + k) of
           Inl e \<Rightarrow> Inl e
         | Inr a \<Rightarrow>
             (case wr Awrk k (Some a) of
                Inl e \<Rightarrow> Inl e
              | Inr Awrk' \<Rightarrow> load_row N A i (k + 1) Awrk'))
      else Inr Awrk)"
  by pat_completeness auto
termination
  by (relation "measure (\<lambda>(N, A, i, k, Awrk). N - k)") auto

declare load_row.simps [simp del]

text \<open>
  What the work-items of a group do, in the order of each work-item's own program:
  \<open>Staged j iloc k\<close> is the write of \<open>Bwrk[k]\<close> by the member with local id
  \<open>iloc\<close> in the staging of column \<open>j\<close>, \<open>Barrier j iloc\<close> the arrival of that
  member at the barrier of column \<open>j\<close>, and \<open>Tmp i j v\<close> the value \<open>v\<close> of
  \<open>tmp\<close> that the work-item with global id \<open>i\<close> has accumulated for column \<open>j\<close>.
\<close>

datatype 'a mark = Staged nat nat nat | Barrier nat nat | Tmp nat nat 'a

text \<open>
  What a work-item shares with others: the global buffer \<open>C\<close> and the scratch buffer
  \<open>Bwrk\<close> of its work-group. \<open>staged\<close> is a ghost field, the marks of the
  work-items that have run on this state, in order.
\<close>

record 'a shared =
  gC :: "'a list"
  Bwrk :: "'a option list"
  staged :: "'a mark list"

text \<open>
  \<^verbatim>\<open>for (k = iloc; k < N; k += nloc) Bwrk[k] = B[k*N+j];\<close>
  The loop does not end when \<open>nloc = 0\<close>; not returning is the value \<open>None\<close>.
\<close>

partial_function (option) stage ::
  "nat \<Rightarrow> 'a list \<Rightarrow> nat \<Rightarrow> nat \<Rightarrow> nat \<Rightarrow> nat \<Rightarrow> 'a shared \<Rightarrow> (fault + 'a shared) option" where
  "stage N B j iloc nloc k s =
     (if k < N then
        (case rd B (k * N + j) of
           Inl e \<Rightarrow> Some (Inl e)
         | Inr b \<Rightarrow>
             (case wr (Bwrk s) k (Some b) of
                Inl e \<Rightarrow> Some (Inl e)
              | Inr Bwrk' \<Rightarrow>
                  stage N B j iloc nloc (k + nloc)
                    (s\<lparr>Bwrk := Bwrk', staged := staged s @ [Staged j iloc k]\<rparr>)))
      else Some (Inr s))"

declare stage.simps [code]

text \<open>
  \<^verbatim>\<open>barrier(CLK_LOCAL_MEM_FENCE);\<close>
  The work-item arrives at the barrier. The barrier releases once every member of
  the group has arrived, so what a member does before its arrival comes before the
  release; the arrival itself changes no memory.
\<close>

definition barrier :: "nat \<Rightarrow> nat \<Rightarrow> 'a shared \<Rightarrow> 'a shared" where
  "barrier j iloc s = s\<lparr>staged := staged s @ [Barrier j iloc]\<rparr>"

text \<open>\<^verbatim>\<open>for (k = 0; k < N; k++) tmp += Awrk[k] * B[k*N+j];\<close>\<close>

function dot_loop ::
  "nat \<Rightarrow> 'a option list \<Rightarrow> 'a list \<Rightarrow> nat \<Rightarrow> nat \<Rightarrow> 'a::{zero,plus,times} \<Rightarrow> fault + 'a" where
  "dot_loop N Awrk B j k tmp =
     (if k < N then
        (case rd_cell Awrk k of
           Inl e \<Rightarrow> Inl e
         | Inr a \<Rightarrow>
             (case rd B (k * N + j) of
                Inl e \<Rightarrow> Inl e
              | Inr b \<Rightarrow> dot_loop N Awrk B j (k + 1) (tmp + a * b)))
      else Inr tmp)"
  by pat_completeness auto
termination
  by (relation "measure (\<lambda>(N, Awrk, B, j, k, tmp). N - k)") auto

declare dot_loop.simps [simp del]

text \<open>
  \<^verbatim>\<open>tmp = 0.0f;\<close> and the loop, on the state the work-item sees after the
  barrier; the sum is marked.
\<close>

definition accumulate ::
  "nat \<Rightarrow> 'a option list \<Rightarrow> 'a list \<Rightarrow> nat \<Rightarrow> nat \<Rightarrow> 'a::{zero,plus,times} shared \<Rightarrow>
   fault + 'a \<times> 'a shared" where
  "accumulate N Awrk B i j s =
     (case dot_loop N Awrk B j 0 0 of
        Inl e \<Rightarrow> Inl e
      | Inr tmp \<Rightarrow> Inr (tmp, s\<lparr>staged := staged s @ [Tmp i j tmp]\<rparr>))"

text \<open>\<^verbatim>\<open>C[i*N+j] += tmp;\<close>\<close>

definition add_to_C ::
  "nat \<Rightarrow> nat \<Rightarrow> nat \<Rightarrow> 'a::plus \<Rightarrow> 'a shared \<Rightarrow> fault + 'a shared" where
  "add_to_C N i j tmp s =
     (case rd (gC s) (i * N + j) of
        Inl e \<Rightarrow> Inl e
      | Inr c \<Rightarrow>
          (case wr (gC s) (i * N + j) (c + tmp) of
             Inl e \<Rightarrow> Inl e
           | Inr C' \<Rightarrow> Inr (s\<lparr>gC := C'\<rparr>)))"

text \<open>The loop over the columns: staging, barrier, accumulation, update of \<open>C\<close>.\<close>

function columns ::
  "nat \<Rightarrow> 'a list \<Rightarrow> 'a option list \<Rightarrow> nat \<Rightarrow> nat \<Rightarrow> nat \<Rightarrow> nat \<Rightarrow>
   'a::{zero,plus,times} shared \<Rightarrow> (fault + 'a shared) option" where
  "columns N B Awrk i iloc nloc j s =
     (if j < N then
        (case stage N B j iloc nloc iloc s of
           None \<Rightarrow> None
         | Some (Inl e) \<Rightarrow> Some (Inl e)
         | Some (Inr s1) \<Rightarrow>
             (case accumulate N Awrk B i j (barrier j iloc s1) of
                Inl e \<Rightarrow> Some (Inl e)
              | Inr (tmp, s2) \<Rightarrow>
                  (case add_to_C N i j tmp s2 of
                     Inl e \<Rightarrow> Some (Inl e)
                   | Inr s3 \<Rightarrow> columns N B Awrk i iloc nloc (j + 1) s3)))
      else Some (Inr s))"
  by pat_completeness auto
termination
  by (relation "measure (\<lambda>(N, B, Awrk, i, iloc, nloc, j, s). N - j)") auto

declare columns.simps [simp del]

text \<open>
  The body of the kernel for the work-item with global id \<open>i\<close>, local id \<open>iloc\<close>,
  in a work-group of \<open>nloc\<close> work-items.
\<close>

definition optimized_rowCPerWorkItemAPrivateBLocal_mmul ::
  "nat \<Rightarrow> 'a list \<Rightarrow> 'a list \<Rightarrow> nat \<times> nat \<times> nat \<Rightarrow>
   'a::{zero,plus,times} shared \<Rightarrow> (fault + 'a shared) option" where
  "optimized_rowCPerWorkItemAPrivateBLocal_mmul N A B w s =
     (case w of (i, iloc, nloc) \<Rightarrow>
        if i < N then
          (case load_row N A i 0 Awrk_init of
             Inl e \<Rightarrow> Some (Inl e)
           | Inr Awrk \<Rightarrow> columns N B Awrk i iloc nloc 0 s)
        else Some (Inr s))"

text \<open>Work-items that may not return, run one after the other.\<close>

fun run_opt ::
  "('w \<Rightarrow> 's \<Rightarrow> (fault + 's) option) \<Rightarrow> 'w list \<Rightarrow> 's \<Rightarrow> (fault + 's) option" where
  "run_opt f [] s = Some (Inr s)"
| "run_opt f (w # ws) s =
     (case f w s of
        None \<Rightarrow> None
      | Some (Inl e) \<Rightarrow> Some (Inl e)
      | Some (Inr s') \<Rightarrow> run_opt f ws s')"

text \<open>
  The kernel run by the \<open>nloc\<close> members of the work-group \<open>g\<close>, on the state
  they share: the member with local id \<open>iloc\<close> has global id \<open>g * nloc + iloc\<close>.
  The marks of one member are in the order of its program; the order between the marks
  of two members says nothing.
\<close>

definition team_run ::
  "nat \<Rightarrow> 'a list \<Rightarrow> 'a list \<Rightarrow> nat \<Rightarrow> nat \<Rightarrow>
   'a::{zero,plus,times} shared \<Rightarrow> (fault + 'a shared) option" where
  "team_run N A B nloc g s =
     run_opt (optimized_rowCPerWorkItemAPrivateBLocal_mmul N A B)
       (map (\<lambda>iloc. (g * nloc + iloc, iloc, nloc)) [0..<nloc]) s"

text \<open>
  One work-group of a launch: its scratch buffer has \<open>lmem\<close> cells and starts
  uninitialised; what stays of the group is \<open>C\<close>.
\<close>

definition work_group ::
  "nat \<Rightarrow> 'a list \<Rightarrow> 'a list \<Rightarrow> nat \<Rightarrow> nat \<Rightarrow> nat \<Rightarrow>
   'a::{zero,plus,times} list \<Rightarrow> (fault + 'a list) option" where
  "work_group N A B nloc lmem g C =
     (case team_run N A B nloc g \<lparr>gC = C, Bwrk = replicate lmem None, staged = []\<rparr> of
        None \<Rightarrow> None
      | Some (Inl e) \<Rightarrow> Some (Inl e)
      | Some (Inr s) \<Rightarrow> Some (Inr (gC s)))"

text \<open>
  The launch of \<^verbatim>\<open>main\<close>: \<^verbatim>\<open>cl::NDRange(N)\<close> work-items in groups of
  \<^verbatim>\<open>cl::NDRange(ORDER/16)\<close>, with \<^verbatim>\<open>cl::Local(sizeof(float) * N)\<close> as scratch.
  The runtime refuses a group size that is zero or does not divide the global size;
  \<open>main\<close> sees that as a \<^verbatim>\<open>cl::Error\<close>.
\<close>

datatype 'a launched = Ran 'a | Faulted fault | InvalidWorkGroupSize

definition tiled_mmul ::
  "nat \<Rightarrow> nat \<Rightarrow> 'a list \<Rightarrow> 'a list \<Rightarrow> 'a::{zero,plus,times} list \<Rightarrow> 'a list launched option" where
  "tiled_mmul N nloc A B C =
     (if 0 < nloc \<and> N mod nloc = 0 then
        (case run_opt (work_group N A B nloc N) [0..<N div nloc] C of
           None \<Rightarrow> None
         | Some (Inl e) \<Rightarrow> Some (Faulted e)
         | Some (Inr C') \<Rightarrow> Some (Ran C'))
      else Some InvalidWorkGroupSize)"

section \<open>The reference result\<close>

text \<open>
  The reference of the specification: \<open>C[i,j]\<close> is the sum over \<open>k\<close> from \<open>0\<close> to
  \<open>N - 1\<close> of \<open>A[i*N+k] * B[k*N+j]\<close>, accumulated from left to right starting at zero.
\<close>

definition ref_elem ::
  "nat \<Rightarrow> 'a list \<Rightarrow> 'a list \<Rightarrow> nat \<Rightarrow> nat \<Rightarrow> 'a::{zero,plus,times}" where
  "ref_elem N A B i j = foldl (\<lambda>acc k. acc + A ! (i * N + k) * B ! (k * N + j)) 0 [0..<N]"

definition ref_matrix ::
  "nat \<Rightarrow> 'a list \<Rightarrow> 'a list \<Rightarrow> 'a::{zero,plus,times} list" where
  "ref_matrix N A B = map (\<lambda>p. ref_elem N A B (p div N) (p mod N)) [0..<N * N]"

section \<open>The timed loop of \<^verbatim>\<open>main\<close> for the tiled kernel\<close>

text \<open>
  The host keeps the matrix \<open>h_C\<close>, the device the buffer \<open>d_c\<close>; \<open>read_back\<close>
  lists what each repetition hands to \<^verbatim>\<open>results\<close>. The buffer \<open>d_c\<close> is created
  without initial contents, so the state the loop starts from is a parameter.
\<close>

record 'a host =
  h_C :: "'a list"
  d_c :: "'a list"
  read_back :: "'a list list"

text \<open>
  Modelled from the spec: \<^verbatim>\<open>zero_mat\<close> is defined in \<^verbatim>\<open>matrix_lib\<close>, which
  is not among the sources; the specification says it overwrites every element of
  \<open>C\<close> with \<open>0\<close>.
\<close>

definition zero_mat :: "nat \<Rightarrow> 'a::zero list \<Rightarrow> 'a list" where
  "zero_mat N C = replicate (length C) 0"

text \<open>
  One repetition: \<^verbatim>\<open>zero_mat(N, h_C)\<close>, the launch on \<open>d_a\<close>, \<open>d_b\<close> and
  \<open>d_c\<close> with work-groups of \<^verbatim>\<open>ORDER/16\<close> (\<open>N\<close> is \<^verbatim>\<open>ORDER\<close>),
  \<^verbatim>\<open>cl::copy\<close> of \<open>d_c\<close> into \<open>h_C\<close>, and \<^verbatim>\<open>results(N, h_C, run_time)\<close>.
\<close>

definition tiled_rep ::
  "nat \<Rightarrow> 'a list \<Rightarrow> 'a list \<Rightarrow> 'a::{zero,plus,times} host \<Rightarrow> 'a host launched option" where
  "tiled_rep N d_a d_b st =
     (let st1 = st\<lparr>h_C := zero_mat N (h_C st)\<rparr> in
      case tiled_mmul N (N div 16) d_a d_b (d_c st1) of
        None \<Rightarrow> None
      | Some InvalidWorkGroupSize \<Rightarrow> Some InvalidWorkGroupSize
      | Some (Faulted f) \<Rightarrow> Some (Faulted f)
      | Some (Ran C') \<Rightarrow>
          Some (Ran (st1\<lparr>d_c := C', h_C := C', read_back := read_back st1 @ [C']\<rparr>)))"

text \<open>\<^verbatim>\<open>for (int i = 0; i < COUNT; i++)\<close>, by the number of repetitions left.\<close>

fun tiled_loop ::
  "nat \<Rightarrow> nat \<Rightarrow> 'a list \<Rightarrow> 'a list \<Rightarrow> 'a::{zero,plus,times} host \<Rightarrow> 'a host launched option" where
  "tiled_loop 0 N d_a d_b st = Some (Ran st)"
| "tiled_loop (Suc n) N d_a d_b st =
     (case tiled_rep N d_a d_b st of
        None \<Rightarrow> None
      | Some InvalidWorkGroupSize \<Rightarrow> Some InvalidWorkGroupSize
      | Some (Faulted f) \<Rightarrow> Some (Faulted f)
      | Some (Ran st') \<Rightarrow> tiled_loop n N d_a d_b st')"

section \<open>The control flow of \<^verbatim>\<open>main\<close>\<close>

text \<open>
  What \<^verbatim>\<open>main\<close> prints, which strategies it invokes and the status it returns.
  The matrices are left out here; the run is a list of events. Everything \<open>main\<close>
  gets from its collaborators is a field of the environment: the device index that
  \<^verbatim>\<open>parseArguments\<close> stores, the number of devices that \<^verbatim>\<open>getDeviceList\<close>
  returns (or the \<^verbatim>\<open>cl::Error\<close> it throws), the constants \<^verbatim>\<open>ORDER\<close> and
  \<^verbatim>\<open>COUNT\<close>, and, for every call into the OpenCL runtime, whether it throws.
\<close>

datatype exit_status = EXIT_SUCCESS | EXIT_FAILURE

datatype stream = Cout | Cerr

datatype strategy = Sequential | Naive | Tiled

datatype cl_error = ClError (what: string) (err: int)

datatype site =
    GetDeviceName | CreateContext | CreateQueue | BuildProgram
  | CreateBuffers strategy | MakeKernel strategy
  | Enqueue strategy nat | Finish strategy nat | Copy strategy nat

datatype event =
    Say stream string
  | Banner strategy nat
  | Invoke strategy
  | Results strategy

record env =
  deviceIndex :: nat
  getDeviceList :: "cl_error + nat"
  deviceName :: string
  ORDER :: nat
  COUNT :: nat
  throws :: "site \<Rightarrow> cl_error option"
  err_code :: "int \<Rightarrow> string"

text \<open>
  A statement of the \<^verbatim>\<open>try\<close> block extends the events so far, or leaves the
  block: by a thrown \<^verbatim>\<open>cl::Error\<close> or by \<^verbatim>\<open>return\<close>.
\<close>

datatype abort = Throw cl_error | Return exit_status

type_synonym step = "event list \<Rightarrow> (abort \<times> event list) + event list"

fun steps :: "step list \<Rightarrow> step" where
  "steps [] t = Inr t"
| "steps (f # fs) t = (case f t of Inl a \<Rightarrow> Inl a | Inr t' \<Rightarrow> steps fs t')"

definition cl_call :: "env \<Rightarrow> site \<Rightarrow> step" where
  "cl_call e c t = (case throws e c of Some x \<Rightarrow> Inl (Throw x, t) | None \<Rightarrow> Inr t)"

definition emit :: "event \<Rightarrow> step" where
  "emit ev t = Inr (t @ [ev])"

text \<open>
  \<^verbatim>\<open>unsigned numDevices = getDeviceList(devices);\<close>
  \<^verbatim>\<open>if (deviceIndex >= numDevices) { std::cout << ...; return EXIT_FAILURE; }\<close>
\<close>

definition pick_device :: "env \<Rightarrow> step" where
  "pick_device e t =
     (case getDeviceList e of
        Inl x \<Rightarrow> Inl (Throw x, t)
      | Inr numDevices \<Rightarrow>
          if deviceIndex e \<ge> numDevices then
            Inl (Return EXIT_FAILURE, t @ [Say Cout ''Invalid device index (try '--list')\<newline>''])
          else Inr t)"

text \<open>The repetitions of the sequential multiplication, which calls no runtime function.\<close>

definition host_reps :: "env \<Rightarrow> step list" where
  "host_reps e =
     concat (map (\<lambda>i. [emit (Invoke Sequential), emit (Results Sequential)]) [0..<COUNT e])"

text \<open>
  The repetitions of a kernel: enqueue, \<^verbatim>\<open>queue.finish()\<close>, \<^verbatim>\<open>cl::copy\<close>,
  \<^verbatim>\<open>results\<close>.
\<close>

definition kernel_reps :: "env \<Rightarrow> strategy \<Rightarrow> step list" where
  "kernel_reps e k =
     concat (map (\<lambda>i. [cl_call e (Enqueue k i), emit (Invoke k), cl_call e (Finish k i),
                        cl_call e (Copy k i), emit (Results k)]) [0..<COUNT e])"

definition try_block :: "env \<Rightarrow> step" where
  "try_block e =
     steps
       ([pick_device e,
         cl_call e GetDeviceName,
         emit (Say Cout (''\<newline>Using OpenCL device: '' @ deviceName e @ ''\<newline>'')),
         cl_call e CreateContext,
         cl_call e CreateQueue,
         emit (Banner Sequential (ORDER e))]
        @ host_reps e @
        [cl_call e BuildProgram,
         cl_call e (CreateBuffers Naive),
         cl_call e (MakeKernel Naive),
         emit (Banner Naive (ORDER e))]
        @ kernel_reps e Naive @
        [cl_call e (CreateBuffers Tiled),
         cl_call e (MakeKernel Tiled),
         emit (Banner Tiled (ORDER e))]
        @ kernel_reps e Tiled)"

text \<open>
  The handler prints and falls through to the last statement of \<open>main\<close>,
  \<^verbatim>\<open>return EXIT_SUCCESS\<close>.
\<close>

definition main :: "env \<Rightarrow> event list \<times> exit_status" where
  "main e =
     (case try_block e [] of
        Inl (Return status, t) \<Rightarrow> (t, status)
      | Inl (Throw x, t) \<Rightarrow>
          (t @ [Say Cout ''Exception\<newline>'',
                Say Cerr (''ERROR: '' @ what x @ ''('' @ err_code e (err x) @ '')\<newline>'')],
           EXIT_SUCCESS)
      | Inr t \<Rightarrow> (t, EXIT_SUCCESS))"

text \<open>
  A run with one device, the device index \<open>0\<close>, order \<open>16\<close> and one repetition,
  in which the runtime call \<open>c\<close> throws.
\<close>

definition cl_fails_at :: "site \<Rightarrow> env" where
  "cl_fails_at c =
     \<lparr>deviceIndex = 0, getDeviceList = Inr 1, deviceName = ''gpu'', ORDER = 16, COUNT = 1,
      throws = (\<lambda>c'. if c' = c then Some (ClError ''cl'' (- 11)) else None),
      err_code = (\<lambda>n. ''CL_BUILD_PROGRAM_FAILURE'')\<rparr>"

section \<open>Definitions for the proofs\<close>

text \<open>
  The relative tolerance of the specification: \<open>c\<close> is within \<open>tol\<close> of the
  reference value \<open>r\<close>. The tolerance itself is a parameter.
\<close>

definition rel_close :: "real \<Rightarrow> real \<Rightarrow> real \<Rightarrow> bool" where
  "rel_close tol c r \<longleftrightarrow> \<bar>c - r\<bar> \<le> tol * \<bar>r\<bar>"

text \<open>The indices \<open>k, k + nloc, k + 2 * nloc, \<dots>\<close> below \<open>N\<close>.\<close>

function strided :: "nat \<Rightarrow> nat \<Rightarrow> nat \<Rightarrow> nat list" where
  "strided N nloc k = (if k < N \<and> 0 < nloc then k # strided N nloc (k + nloc) else [])"
  by pat_completeness auto
termination
  by (relation "measure (\<lambda>(N, nloc, k). N - k)") auto

declare strided.simps [simp del]


text \<open>The marks of the sum that the work-item \<open>i\<close> accumulates for column \<open>j\<close>.\<close>

fun sums_cell :: "nat \<Rightarrow> nat \<Rightarrow> 'a mark \<Rightarrow> bool" where
  "sums_cell i j (Staged j' iloc k) = False"
| "sums_cell i j (Barrier j' iloc) = False"
| "sums_cell i j (Tmp i' j' v) = (i' = i \<and> j' = j)"

text \<open>
  The marks that a work-item leaves for the columns from \<open>j\<close> on, when \<open>T j'\<close> is
  the sum it accumulates for column \<open>j'\<close>.
\<close>

definition column_marks ::
  "nat \<Rightarrow> nat \<Rightarrow> nat \<Rightarrow> nat \<Rightarrow> (nat \<Rightarrow> 'a) \<Rightarrow> nat \<Rightarrow> 'a mark list" where
  "column_marks N nloc i iloc T j =
     map (Staged j iloc) (strided N nloc iloc) @ [Barrier j iloc, Tmp i j (T j)]"

definition item_marks ::
  "nat \<Rightarrow> nat \<Rightarrow> nat \<Rightarrow> nat \<Rightarrow> (nat \<Rightarrow> 'a) \<Rightarrow> nat \<Rightarrow> 'a mark list" where
  "item_marks N nloc i iloc T j = concat (map (column_marks N nloc i iloc T) [j..<N])"

text \<open>Row \<open>i\<close> of \<open>C\<close> with \<open>T i j\<close> added to the cell of each column \<open>j\<close>.\<close>

definition row_acc :: "nat \<Rightarrow> (nat \<Rightarrow> nat \<Rightarrow> 'a::plus) \<Rightarrow> nat \<Rightarrow> 'a list \<Rightarrow> 'a list" where
  "row_acc N T i C = fold (\<lambda>j c. c[i * N + j := c ! (i * N + j) + T i j]) [0..<N] C"

section \<open>Index arithmetic\<close>

lemma index_in_matrix: "i < N \<Longrightarrow> k < N \<Longrightarrow> i * N + k < N * (N::nat)"
proof -
  assume i: "i < N" and k: "k < N"
  have "i * N + k < Suc i * N" using k by simp
  also have "\<dots> \<le> N * N" using i by (simp add: Suc_leI mult_le_mono1 del: mult_Suc)
  finally show ?thesis .
qed

lemma index_fits_int:
  "i < N \<Longrightarrow> k < N \<Longrightarrow> N * N \<le> 2147483647 \<Longrightarrow> i * N + k < (2147483648::nat)"
  using index_in_matrix [of i N k] by simp

lemma index_div: "j < N \<Longrightarrow> (i * N + j) div N = (i::nat)"
  by simp

lemma index_mod: "j < N \<Longrightarrow> (i * N + j) mod N = (j::nat)"
  by simp

lemma index_inj:
  "j < N \<Longrightarrow> j' < N \<Longrightarrow> i * N + j = i' * N + j' \<Longrightarrow> i = i' \<and> j = (j'::nat)"
  by (metis index_div index_mod)

section \<open>The naive kernel computes the reference\<close>

lemma mmul_loop_foldl:
  "k \<le> N \<Longrightarrow> i < N \<Longrightarrow> j < N \<Longrightarrow> length A = N * N \<Longrightarrow> length B = N * N \<Longrightarrow>
   mmul_loop N A B i j k tmp =
     Inr (foldl (\<lambda>acc k. acc + A ! (i * N + k) * B ! (k * N + j)) tmp [k..<N])"
proof (induction N A B i j k tmp rule: mmul_loop.induct)
  case (1 N A B i j k tmp)
  show ?case
  proof (cases "k < N")
    case True
    have a: "rd A (i * N + k) = Inr (A ! (i * N + k))"
      using index_in_matrix [of i N k] True "1.prems" by (simp add: rd_def)
    have b: "rd B (k * N + j) = Inr (B ! (k * N + j))"
      using index_in_matrix [of k N j] True "1.prems" by (simp add: rd_def)
    have "mmul_loop N A B i j (k + 1) (tmp + A ! (i * N + k) * B ! (k * N + j)) =
          Inr (foldl (\<lambda>acc k. acc + A ! (i * N + k) * B ! (k * N + j))
                 (tmp + A ! (i * N + k) * B ! (k * N + j)) [k + 1..<N])"
      using "1.IH" [OF True a b] True "1.prems" by simp
    then show ?thesis
      using True a b by (subst mmul_loop.simps) (simp add: upt_conv_Cons)
  next
    case False
    then show ?thesis
      using "1.prems" by (subst mmul_loop.simps) simp
  qed
qed

lemma mmul_writes_ref:
  "i < N \<Longrightarrow> j < N \<Longrightarrow> length A = N * N \<Longrightarrow> length B = N * N \<Longrightarrow> length C = N * N \<Longrightarrow>
   mmul N A B (i, j) C = Inr (C[i * N + j := ref_elem N A B i j])"
  using index_in_matrix [of i N j]
  by (simp add: mmul_def mmul_loop_foldl ref_elem_def wr_def)

section \<open>Launches as folds\<close>

lemma run_items_fold:
  "(\<And>w s. w \<in> set ws \<Longrightarrow> P s \<Longrightarrow> f w s = Inr (g w s) \<and> P (g w s)) \<Longrightarrow> P s \<Longrightarrow>
   run_items f ws s = Inr (fold g ws s)"
proof (induction ws arbitrary: s)
  case Nil
  then show ?case by simp
next
  case (Cons w ws)
  have step: "f w s = Inr (g w s)" and keep: "P (g w s)"
    using Cons.prems(1) [of w s] Cons.prems(2) by simp_all
  have "run_items f ws (g w s) = Inr (fold g ws (g w s))"
    using Cons.prems(1) keep by (intro Cons.IH) simp_all
  then show ?case using step by simp
qed

lemma length_fold_update:
  "length (fold (\<lambda>w s. s[cell w := val w]) ws s) = length s"
  by (induction ws arbitrary: s) simp_all

lemma fold_update_other:
  "c \<notin> cell ` set ws \<Longrightarrow> fold (\<lambda>w s. s[cell w := val w]) ws s ! c = s ! c"
  by (induction ws arbitrary: s) simp_all

lemma fold_update_nth:
  "distinct (map cell ws) \<Longrightarrow> w \<in> set ws \<Longrightarrow> cell w < length s \<Longrightarrow>
   fold (\<lambda>w s. s[cell w := val w]) ws s ! cell w = val w"
proof (induction ws arbitrary: s)
  case Nil
  then show ?case by simp
next
  case (Cons x ws)
  show ?case
  proof (cases "w = x")
    case True
    then have "cell w \<notin> cell ` set ws" using Cons.prems(1) by simp
    then show ?thesis using True Cons.prems(3) by (simp add: fold_update_other)
  next
    case False
    then show ?thesis using Cons by simp
  qed
qed

lemma grid_cells_distinct:
  "distinct (map (\<lambda>(i, j). i * N + j) (List.product [0..<N] [0..<N]))"
proof -
  have "inj_on (\<lambda>(i, j). i * N + j) (set (List.product [0..<N] [0..<N]))"
    by (rule inj_onI) (auto dest: index_inj)
  then show ?thesis by (simp add: distinct_map distinct_product)
qed

lemma naive_mmul_fold:
  assumes "length A = N * N" "length B = N * N" "length C = N * N"
  shows "naive_mmul N A B C =
           Inr (fold (\<lambda>w s. s[(case w of (i, j) \<Rightarrow> i * N + j) :=
                                (case w of (i, j) \<Rightarrow> ref_elem N A B i j)])
                  (List.product [0..<N] [0..<N]) C)"
  unfolding naive_mmul_def
proof (rule run_items_fold [where P = "\<lambda>s. length s = N * N"])
  fix w and s :: "'a list"
  assume w: "w \<in> set (List.product [0..<N] [0..<N])" and s: "length s = N * N"
  obtain i j where ij: "w = (i, j)" by (cases w)
  have "i < N" "j < N" using w ij by simp_all
  then show "mmul N A B w s =
               Inr (s[(case w of (i, j) \<Rightarrow> i * N + j) := (case w of (i, j) \<Rightarrow> ref_elem N A B i j)]) \<and>
             length (s[(case w of (i, j) \<Rightarrow> i * N + j) := (case w of (i, j) \<Rightarrow> ref_elem N A B i j)]) = N * N"
    using assms s ij by (simp add: mmul_writes_ref)
qed (rule assms)

lemma naive_mmul_ref:
  assumes "length A = N * N" "length B = N * N" "length C = N * N"
  shows "naive_mmul N A B C = Inr (ref_matrix N A B)"
proof -
  let ?cell = "\<lambda>w. case w of (i, j) \<Rightarrow> i * N + j"
  let ?val = "\<lambda>w. case w of (i, j) \<Rightarrow> ref_elem N A B i j"
  let ?ws = "List.product [0..<N] [0..<N]"
  let ?R = "fold (\<lambda>w s. s[?cell w := ?val w]) ?ws C"
  have len: "length ?R = N * N"
    using assms(3) by (simp add: length_fold_update)
  have "?R = ref_matrix N A B"
  proof (rule nth_equalityI)
    show "length ?R = length (ref_matrix N A B)"
      using len by (simp add: ref_matrix_def)
  next
    fix p assume "p < length ?R"
    then have p: "p < N * N" using len by simp
    then have N: "0 < N" by (cases N) simp_all
    let ?w = "(p div N, p mod N)"
    have dv: "p div N < N" using p by (simp add: less_mult_imp_div_less)
    have md: "p mod N < N" using N by simp
    have cell: "?cell ?w = p" by simp
    have mem: "?w \<in> set ?ws" using dv md by simp
    have "?R ! ?cell ?w = ?val ?w"
      using grid_cells_distinct [of N] mem p assms(3)
      by (intro fold_update_nth) (simp_all del: upt.simps)
    then show "?R ! p = ref_matrix N A B ! p"
      using p by (simp add: ref_matrix_def)
  qed
  then show ?thesis using naive_mmul_fold [OF assms] by simp
qed

section \<open>The private row\<close>

lemma load_row_fold:
  "k \<le> N \<Longrightarrow> N \<le> length Awrk \<Longrightarrow> i < N \<Longrightarrow> length A = N * N \<Longrightarrow>
   load_row N A i k Awrk = Inr (fold (\<lambda>k aw. aw[k := Some (A ! (i * N + k))]) [k..<N] Awrk)"
proof (induction N A i k Awrk rule: load_row.induct)
  case (1 N A i k Awrk)
  show ?case
  proof (cases "k < N")
    case True
    have a: "rd A (i * N + k) = Inr (A ! (i * N + k))"
      using index_in_matrix [of i N k] True "1.prems" by (simp add: rd_def)
    have w: "wr Awrk k (Some (A ! (i * N + k))) = Inr (Awrk[k := Some (A ! (i * N + k))])"
      using True "1.prems" by (simp add: wr_def)
    have "load_row N A i (k + 1) (Awrk[k := Some (A ! (i * N + k))]) =
          Inr (fold (\<lambda>k aw. aw[k := Some (A ! (i * N + k))]) [k + 1..<N]
                 (Awrk[k := Some (A ! (i * N + k))]))"
      using "1.IH" [OF True a w] True "1.prems" by simp
    then show ?thesis
      using True a w by (subst load_row.simps) (simp add: upt_conv_Cons)
  next
    case False
    then show ?thesis
      using "1.prems" by (subst load_row.simps) simp
  qed
qed

lemma load_row_overrun:
  "k \<le> length Awrk \<Longrightarrow> length Awrk < N \<Longrightarrow> i < N \<Longrightarrow> length A = N * N \<Longrightarrow>
   load_row N A i k Awrk = Inl OutOfBounds"
proof (induction N A i k Awrk rule: load_row.induct)
  case (1 N A i k Awrk)
  have kN: "k < N" using "1.prems" by simp
  have a: "rd A (i * N + k) = Inr (A ! (i * N + k))"
    using index_in_matrix [of i N k] kN "1.prems" by (simp add: rd_def)
  show ?case
  proof (cases "k < length Awrk")
    case True
    have w: "wr Awrk k (Some (A ! (i * N + k))) = Inr (Awrk[k := Some (A ! (i * N + k))])"
      using True by (simp add: wr_def)
    have "load_row N A i (k + 1) (Awrk[k := Some (A ! (i * N + k))]) = Inl OutOfBounds"
      using "1.IH" [OF kN a w] True "1.prems" by simp
    then show ?thesis
      using kN a w by (subst load_row.simps) simp
  next
    case False
    then have "wr Awrk k (Some (A ! (i * N + k))) = Inl OutOfBounds"
      by (simp add: wr_def)
    then show ?thesis
      using kN a by (subst load_row.simps) simp
  qed
qed

lemma load_row_cells:
  assumes "N \<le> length Awrk" "i < N" "length A = N * N"
  shows "\<exists>Awrk'. load_row N A i 0 Awrk = Inr Awrk' \<and> length Awrk' = length Awrk \<and>
           (\<forall>k<N. Awrk' ! k = Some (A ! (i * N + k)))"
proof -
  let ?R = "fold (\<lambda>k aw. aw[k := Some (A ! (i * N + k))]) [0..<N] Awrk"
  have run: "load_row N A i 0 Awrk = Inr ?R"
    using assms by (simp add: load_row_fold)
  have len: "length ?R = length Awrk"
    by (rule length_fold_update)
  have "?R ! k = Some (A ! (i * N + k))" if "k < N" for k
    using that assms(1)
    fold_update_nth [of "\<lambda>k. k" "[0..<N]" k Awrk "\<lambda>k. Some (A ! (i * N + k))"]
    by simp
  then show ?thesis using run len by blast
qed

section \<open>The accumulation loop\<close>

lemma dot_loop_foldl:
  "k \<le> N \<Longrightarrow> j < N \<Longrightarrow> length B = N * N \<Longrightarrow> N \<le> length Awrk \<Longrightarrow>
   (\<And>k. k < N \<Longrightarrow> Awrk ! k = Some (row k)) \<Longrightarrow>
   dot_loop N Awrk B j k tmp =
     Inr (foldl (\<lambda>acc k. acc + row k * B ! (k * N + j)) tmp [k..<N])"
proof (induction N Awrk B j k tmp rule: dot_loop.induct)
  case (1 N Awrk B j k tmp)
  show ?case
  proof (cases "k < N")
    case True
    have a: "rd_cell Awrk k = Inr (row k)"
      using True "1.prems" by (simp add: rd_cell_def)
    have b: "rd B (k * N + j) = Inr (B ! (k * N + j))"
      using index_in_matrix [of k N j] True "1.prems" by (simp add: rd_def)
    have "dot_loop N Awrk B j (k + 1) (tmp + row k * B ! (k * N + j)) =
          Inr (foldl (\<lambda>acc k. acc + row k * B ! (k * N + j))
                 (tmp + row k * B ! (k * N + j)) [k + 1..<N])"
      using "1.IH" [OF True a b] True "1.prems" by simp
    then show ?thesis
      using True a b by (subst dot_loop.simps) (simp add: upt_conv_Cons)
  next
    case False
    then show ?thesis
      using "1.prems" by (subst dot_loop.simps) simp
  qed
qed


lemma dot_loop_overrun:
  "k \<le> length Awrk \<Longrightarrow> length Awrk < N \<Longrightarrow> (\<And>k. k < length Awrk \<Longrightarrow> Awrk ! k = Some (row k)) \<Longrightarrow>
   j < N \<Longrightarrow> length B = N * N \<Longrightarrow> dot_loop N Awrk B j k tmp = Inl OutOfBounds"
proof (induction N Awrk B j k tmp rule: dot_loop.induct)
  case (1 N Awrk B j k tmp)
  have kN: "k < N" using "1.prems" by simp
  show ?case
  proof (cases "k < length Awrk")
    case True
    have a: "rd_cell Awrk k = Inr (row k)"
      using True "1.prems" by (simp add: rd_cell_def)
    have b: "rd B (k * N + j) = Inr (B ! (k * N + j))"
      using index_in_matrix [of k N j] kN "1.prems" by (simp add: rd_def)
    have "dot_loop N Awrk B j (k + 1) (tmp + row k * B ! (k * N + j)) = Inl OutOfBounds"
      using "1.IH" [OF kN a b] True "1.prems" by simp
    then show ?thesis
      using kN a b by (subst dot_loop.simps) simp
  next
    case False
    then have "rd_cell Awrk k = Inl OutOfBounds"
      by (simp add: rd_cell_def)
    then show ?thesis
      using kN by (subst dot_loop.simps) simp
  qed
qed

section \<open>The staging loop\<close>

lemma stage_strided:
  "0 < nloc \<Longrightarrow> N \<le> length (Bwrk s) \<Longrightarrow> j < N \<Longrightarrow> length B = N * N \<Longrightarrow>
   stage N B j iloc nloc k s =
     Some (Inr (s\<lparr>Bwrk := fold (\<lambda>k bw. bw[k := Some (B ! (k * N + j))]) (strided N nloc k) (Bwrk s),
                  staged := staged s @ map (Staged j iloc) (strided N nloc k)\<rparr>))"
proof (induction N nloc k arbitrary: s rule: strided.induct)
  case (1 N nloc k)
  show ?case
  proof (cases "k < N")
    case True
    let ?s = "s\<lparr>Bwrk := (Bwrk s)[k := Some (B ! (k * N + j))], staged := staged s @ [Staged j iloc k]\<rparr>"
    have b: "rd B (k * N + j) = Inr (B ! (k * N + j))"
      using index_in_matrix [of k N j] True "1.prems" by (simp add: rd_def)
    have w: "wr (Bwrk s) k (Some (B ! (k * N + j))) = Inr ((Bwrk s)[k := Some (B ! (k * N + j))])"
      using True "1.prems" by (simp add: wr_def)
    have st: "strided N nloc k = k # strided N nloc (k + nloc)"
      using True "1.prems"(1) by (subst strided.simps) simp
    have "stage N B j iloc nloc (k + nloc) ?s =
          Some (Inr (?s\<lparr>Bwrk := fold (\<lambda>k bw. bw[k := Some (B ! (k * N + j))])
                                  (strided N nloc (k + nloc)) (Bwrk ?s),
                         staged := staged ?s @ map (Staged j iloc) (strided N nloc (k + nloc))\<rparr>))"
      using True "1.prems" by (intro "1.IH") simp_all
    then show ?thesis
      using True b w st by (subst stage.simps) simp
  next
    case False
    then have "strided N nloc k = []" by (subst strided.simps) simp
    then show ?thesis using False by (subst stage.simps) simp
  qed
qed




section \<open>The marks of a work-item\<close>


lemma concat_pick: "c < n \<Longrightarrow> concat (map (\<lambda>m. if m = c then f m else []) [0..<n]) = f c"
proof (induction n)
  case 0
  then show ?case by simp
next
  case (Suc n)
  show ?case
  proof (cases "c = n")
    case True
    have "concat (map (\<lambda>m. if m = c then f m else []) [0..<n]) = []"
      using True by simp
    then show ?thesis using True by simp
  next
    case False
    then show ?thesis using Suc by simp
  qed
qed





lemma column_marks_sums:
  "filter (sums_cell i j) (column_marks N nloc i m T j') = (if j' = j then [Tmp i j (T j)] else [])"
  by (auto simp: column_marks_def filter_map comp_def)

lemma item_marks_sums:
  assumes "j < N"
  shows "filter (sums_cell i j) (item_marks N nloc i m T 0) = [Tmp i j (T j)]"
proof -
  have "filter (sums_cell i j) (item_marks N nloc i m T 0) =
          concat (map (\<lambda>j'. filter (sums_cell i j) (column_marks N nloc i m T j')) [0..<N])"
    by (simp add: item_marks_def filter_concat comp_def)
  also have "\<dots> = concat (map (\<lambda>j'. if j' = j then [Tmp i j (T j)] else []) [0..<N])"
    by (simp add: column_marks_sums)
  also have "\<dots> = [Tmp i j (T j)]"
    using assms concat_pick [of j N "\<lambda>j'. [Tmp i j (T j)]"] by simp
  finally show ?thesis .
qed

section \<open>The tiled kernel adds the reference to \<open>C\<close>\<close>

lemma run_opt_append:
  "run_opt f (xs @ ys) s =
     (case run_opt f xs s of
        None \<Rightarrow> None
      | Some (Inl e) \<Rightarrow> Some (Inl e)
      | Some (Inr s') \<Rightarrow> run_opt f ys s')"
  by (induction xs arbitrary: s) (auto split: option.splits sum.splits)

lemma length_fold_acc:
  "length (fold (\<lambda>w s. s[cell w := s ! cell w + val w]) ws s) = length s"
  by (induction ws arbitrary: s) simp_all

lemma fold_acc_other:
  "c \<notin> cell ` set ws \<Longrightarrow> fold (\<lambda>w s. s[cell w := s ! cell w + val w]) ws s ! c = s ! c"
  by (induction ws arbitrary: s) simp_all

lemma fold_acc_nth:
  "distinct (map cell ws) \<Longrightarrow> w \<in> set ws \<Longrightarrow> cell w < length s \<Longrightarrow>
   fold (\<lambda>w s. s[cell w := s ! cell w + val w]) ws s ! cell w = s ! cell w + val w"
proof (induction ws arbitrary: s)
  case Nil
  then show ?case by simp
next
  case (Cons x ws)
  show ?case
  proof (cases "w = x")
    case True
    then have "cell w \<notin> cell ` set ws" using Cons.prems(1) by simp
    then show ?thesis using True Cons.prems(3) by (simp add: fold_acc_other)
  next
    case False
    then have "cell x \<noteq> cell w" using Cons.prems(1,2) by auto
    then show ?thesis using False Cons by simp
  qed
qed

lemma length_row_acc: "length (row_acc N T i C) = length C"
  unfolding row_acc_def by (rule length_fold_acc)

lemma length_fold_row_acc: "length (fold (row_acc N T) xs C) = length C"
  by (induction xs arbitrary: C) (simp_all add: length_row_acc)

lemma add_to_C_cell:
  "i < N \<Longrightarrow> j < N \<Longrightarrow> length (gC s) = N * N \<Longrightarrow>
   add_to_C N i j tmp s = Inr (s\<lparr>gC := (gC s)[i * N + j := gC s ! (i * N + j) + tmp]\<rparr>)"
  using index_in_matrix [of i N j] by (simp add: add_to_C_def rd_def wr_def)

lemma columns_fold:
  "0 < nloc \<Longrightarrow> i < N \<Longrightarrow> length B = N * N \<Longrightarrow> N \<le> length Awrk \<Longrightarrow>
   (\<And>k. k < N \<Longrightarrow> Awrk ! k = Some (row k)) \<Longrightarrow>
   j \<le> N \<Longrightarrow> length (gC s) = N * N \<Longrightarrow> N \<le> length (Bwrk s) \<Longrightarrow>
         \<exists>s'. columns N B Awrk i iloc nloc j s = Some (Inr s') \<and>
           length (Bwrk s') = length (Bwrk s) \<and>
           staged s' = staged s @
             item_marks N nloc i iloc
               (\<lambda>j. foldl (\<lambda>acc k. acc + row k * B ! (k * N + j)) 0 [0..<N]) j \<and>
           gC s' = fold (\<lambda>j c. c[i * N + j := c ! (i * N + j) +
                      foldl (\<lambda>acc k. acc + row k * B ! (k * N + j)) 0 [0..<N]]) [j..<N] (gC s)"
proof (induction N B Awrk i iloc nloc j s rule: columns.induct)
  case (1 N B Awrk i iloc nloc j s)
  note fixed = "1.prems"(1-5)
  let ?T = "\<lambda>j. foldl (\<lambda>acc k. acc + row k * B ! (k * N + j)) 0 [0..<N]"
  show ?case
  proof (cases "j < N")
    case True
    let ?s1 = "s\<lparr>Bwrk := fold (\<lambda>k bw. bw[k := Some (B ! (k * N + j))])
                             (strided N nloc iloc) (Bwrk s),
                  staged := staged s @ map (Staged j iloc) (strided N nloc iloc)\<rparr>"
    let ?s2 = "?s1\<lparr>staged := staged s @ column_marks N nloc i iloc ?T j\<rparr>"
    let ?s3 = "?s2\<lparr>gC := (gC s)[i * N + j := gC s ! (i * N + j) + ?T j]\<rparr>"
    have st: "stage N B j iloc nloc iloc s = Some (Inr ?s1)"
      using fixed(1) "1.prems"(8) True fixed(3) by (rule stage_strided)
    have ac: "accumulate N Awrk B i j (barrier j iloc ?s1) = Inr (?T j, ?s2)"
      using dot_loop_foldl [of 0 N j B Awrk row 0] True fixed
      by (simp add: accumulate_def barrier_def column_marks_def)
    have ad: "add_to_C N i j (?T j) ?s2 = Inr ?s3"
      using fixed(2) True "1.prems"(7) by (simp add: add_to_C_cell)
    have "\<exists>s'. columns N B Awrk i iloc nloc (j + 1) ?s3 = Some (Inr s') \<and>
            length (Bwrk s') = length (Bwrk ?s3) \<and>
            staged s' = staged ?s3 @ item_marks N nloc i iloc ?T (j + 1) \<and>
            gC s' = fold (\<lambda>j c. c[i * N + j := c ! (i * N + j) + ?T j]) [j + 1..<N] (gC ?s3)"
      using True "1.prems"(7,8) fixed
      by (intro "1.IH" [OF True st refl ac refl ad]) (simp_all add: length_fold_update)
    then obtain s' where s':
      "columns N B Awrk i iloc nloc (j + 1) ?s3 = Some (Inr s')"
      "length (Bwrk s') = length (Bwrk ?s3)"
      "staged s' = staged ?s3 @ item_marks N nloc i iloc ?T (j + 1)"
      "gC s' = fold (\<lambda>j c. c[i * N + j := c ! (i * N + j) + ?T j]) [j + 1..<N] (gC ?s3)"
      by blast
    have run: "columns N B Awrk i iloc nloc j s = Some (Inr s')"
      using True st ac ad s'(1) by (subst columns.simps) simp
    have len: "length (Bwrk s') = length (Bwrk s)"
      using s'(2) by (simp add: length_fold_update)
    have mk: "staged s' = staged s @ item_marks N nloc i iloc ?T j"
      using s'(3) True by (simp add: item_marks_def upt_conv_Cons)
    have res: "gC s' = fold (\<lambda>j c. c[i * N + j := c ! (i * N + j) + ?T j]) [j..<N] (gC s)"
      using s'(4) True by (simp add: upt_conv_Cons)
    show ?thesis using run len mk res by blast
  next
    case False
    then have "columns N B Awrk i iloc nloc j s = Some (Inr s)"
      by (subst columns.simps) simp
    then show ?thesis using False "1.prems"(6) by (simp add: item_marks_def)
  qed
qed

lemma worker_row:
  assumes "0 < nloc" "i < N" "N \<le> 1024" "length A = N * N" "length B = N * N"
    "length (gC s) = N * N" "N \<le> length (Bwrk s)"
  shows "\<exists>s'. optimized_rowCPerWorkItemAPrivateBLocal_mmul N A B (i, iloc, nloc) s = Some (Inr s') \<and>
           length (Bwrk s') = length (Bwrk s) \<and>
           staged s' = staged s @ item_marks N nloc i iloc (ref_elem N A B i) 0 \<and>
           gC s' = row_acc N (ref_elem N A B) i (gC s)"
proof -
  have "N \<le> length (Awrk_init :: 'a option list)"
    using assms(3) by (simp add: Awrk_init_def)
  then obtain Awrk where ld: "load_row N A i 0 Awrk_init = Inr Awrk"
    and len: "length Awrk = length (Awrk_init :: 'a option list)"
    and cells: "\<forall>k<N. Awrk ! k = Some (A ! (i * N + k))"
    using load_row_cells [of N Awrk_init i A] assms(2,4) by blast
  have lenA: "N \<le> length Awrk"
    using len assms(3) by (simp add: Awrk_init_def)
  have "\<exists>s'. columns N B Awrk i iloc nloc 0 s = Some (Inr s') \<and>
          length (Bwrk s') = length (Bwrk s) \<and>
          staged s' = staged s @
            item_marks N nloc i iloc
              (\<lambda>j. foldl (\<lambda>acc k. acc + A ! (i * N + k) * B ! (k * N + j)) 0 [0..<N]) 0 \<and>
          gC s' = fold (\<lambda>j c. c[i * N + j := c ! (i * N + j) +
                     foldl (\<lambda>acc k. acc + A ! (i * N + k) * B ! (k * N + j)) 0 [0..<N]])
                    [0..<N] (gC s)"
    using assms(1,2,5) lenA cells assms(6,7)
    by (intro columns_fold) simp_all
  moreover have "ref_elem N A B i =
                   (\<lambda>j. foldl (\<lambda>acc k. acc + A ! (i * N + k) * B ! (k * N + j)) 0 [0..<N])"
    by (rule ext) (simp add: ref_elem_def)
  ultimately show ?thesis
    using ld assms(2)
    by (simp add: optimized_rowCPerWorkItemAPrivateBLocal_mmul_def row_acc_def ref_elem_def)
qed

lemma worker_overrun:
  assumes "1024 < N" "i < N" "length A = N * N"
  shows "optimized_rowCPerWorkItemAPrivateBLocal_mmul N A B (i, iloc, nloc) s = Some (Inl OutOfBounds)"
proof -
  have "load_row N A i 0 (Awrk_init :: 'a option list) = Inl OutOfBounds"
    using assms by (intro load_row_overrun) (simp_all add: Awrk_init_def)
  then show ?thesis
    using assms(2) by (simp add: optimized_rowCPerWorkItemAPrivateBLocal_mmul_def)
qed

lemma team_members:
  assumes "0 < nloc" "N \<le> 1024" "length A = N * N" "length B = N * N"
  shows "g * nloc + m \<le> N \<Longrightarrow> length (gC s) = N * N \<Longrightarrow> N \<le> length (Bwrk s) \<Longrightarrow>
         \<exists>s'. run_opt (optimized_rowCPerWorkItemAPrivateBLocal_mmul N A B)
                 (map (\<lambda>iloc. (g * nloc + iloc, iloc, nloc)) [0..<m]) s = Some (Inr s') \<and>
           length (Bwrk s') = length (Bwrk s) \<and>
           staged s' = staged s @
             concat (map (\<lambda>iloc. item_marks N nloc (g * nloc + iloc) iloc
                                   (ref_elem N A B (g * nloc + iloc)) 0) [0..<m]) \<and>
           gC s' = fold (row_acc N (ref_elem N A B)) [g * nloc..<g * nloc + m] (gC s)"
proof (induction m)
  case 0
  then show ?case by simp
next
  case (Suc m)
  obtain s1 where s1:
    "run_opt (optimized_rowCPerWorkItemAPrivateBLocal_mmul N A B)
       (map (\<lambda>iloc. (g * nloc + iloc, iloc, nloc)) [0..<m]) s = Some (Inr s1)"
    "length (Bwrk s1) = length (Bwrk s)"
    "staged s1 = staged s @
       concat (map (\<lambda>iloc. item_marks N nloc (g * nloc + iloc) iloc
                             (ref_elem N A B (g * nloc + iloc)) 0) [0..<m])"
    "gC s1 = fold (row_acc N (ref_elem N A B)) [g * nloc..<g * nloc + m] (gC s)"
    using Suc by force
  have len1: "length (gC s1) = N * N"
    using s1(4) Suc.prems(2) by (simp add: length_fold_row_acc)
  have "\<exists>s'. optimized_rowCPerWorkItemAPrivateBLocal_mmul N A B (g * nloc + m, m, nloc) s1 =
               Some (Inr s') \<and>
          length (Bwrk s') = length (Bwrk s1) \<and>
          staged s' = staged s1 @
            item_marks N nloc (g * nloc + m) m (ref_elem N A B (g * nloc + m)) 0 \<and>
          gC s' = row_acc N (ref_elem N A B) (g * nloc + m) (gC s1)"
    using assms len1 s1(2) Suc.prems by (intro worker_row) simp_all
  then obtain s2 where s2:
    "optimized_rowCPerWorkItemAPrivateBLocal_mmul N A B (g * nloc + m, m, nloc) s1 = Some (Inr s2)"
    "length (Bwrk s2) = length (Bwrk s1)"
    "staged s2 = staged s1 @
       item_marks N nloc (g * nloc + m) m (ref_elem N A B (g * nloc + m)) 0"
    "gC s2 = row_acc N (ref_elem N A B) (g * nloc + m) (gC s1)"
    by blast
  have "run_opt (optimized_rowCPerWorkItemAPrivateBLocal_mmul N A B)
          (map (\<lambda>iloc. (g * nloc + iloc, iloc, nloc)) [0..<Suc m]) s = Some (Inr s2)"
    using s1(1) s2(1) by (simp add: run_opt_append)
  moreover have "gC s2 = fold (row_acc N (ref_elem N A B)) [g * nloc..<g * nloc + Suc m] (gC s)"
    using s1(4) s2(4) by simp
  moreover have "staged s2 = staged s @
       concat (map (\<lambda>iloc. item_marks N nloc (g * nloc + iloc) iloc
                             (ref_elem N A B (g * nloc + iloc)) 0) [0..<Suc m])"
    using s1(3) s2(3) by simp
  ultimately show ?case using s1(2) s2(2) by simp
qed

lemma team_run_rows:
  assumes "0 < nloc" "N \<le> 1024" "length A = N * N" "length B = N * N"
    "g * nloc + nloc \<le> N" "length (gC s) = N * N" "N \<le> length (Bwrk s)"
  shows "\<exists>s'. team_run N A B nloc g s = Some (Inr s') \<and>
           staged s' = staged s @
             concat (map (\<lambda>iloc. item_marks N nloc (g * nloc + iloc) iloc
                                   (ref_elem N A B (g * nloc + iloc)) 0) [0..<nloc]) \<and>
           gC s' = fold (row_acc N (ref_elem N A B)) [g * nloc..<g * nloc + nloc] (gC s)"
  unfolding team_run_def
  using team_members [OF assms(1-4), of g nloc s] assms(5-7) by blast

lemma team_run_overrun:
  assumes "1024 < N" "0 < nloc" "g * nloc < N" "length A = N * N"
  shows "team_run N A B nloc g s = Some (Inl OutOfBounds)"
proof -
  have "[0..<nloc] = 0 # [1..<nloc]"
    using assms(2) by (simp add: upt_conv_Cons)
  then show ?thesis
    using worker_overrun [OF assms(1) _ assms(4), of "g * nloc" B 0 nloc s] assms(3)
    by (simp add: team_run_def)
qed

lemma work_group_rows:
  assumes "0 < nloc" "N \<le> 1024" "length A = N * N" "length B = N * N"
    "g * nloc + nloc \<le> N" "length C = N * N"
  shows "work_group N A B nloc N g C =
           Some (Inr (fold (row_acc N (ref_elem N A B)) [g * nloc..<g * nloc + nloc] C))"
  using team_run_rows
    [OF assms(1-5), of "\<lparr>gC = C, Bwrk = replicate N None, staged = []\<rparr>"] assms(6)
  by (auto simp: work_group_def)

lemma groups_rows:
  assumes "0 < nloc" "N \<le> 1024" "length A = N * N" "length B = N * N"
  shows "G * nloc \<le> N \<Longrightarrow> length C = N * N \<Longrightarrow>
         run_opt (work_group N A B nloc N) [0..<G] C =
           Some (Inr (fold (row_acc N (ref_elem N A B)) [0..<G * nloc] C))"
proof (induction G)
  case 0
  show ?case by simp
next
  case (Suc G)
  let ?C1 = "fold (row_acc N (ref_elem N A B)) [0..<G * nloc] C"
  have r1: "run_opt (work_group N A B nloc N) [0..<G] C = Some (Inr ?C1)"
    using Suc by simp
  have len1: "length ?C1 = N * N"
    using Suc.prems(2) by (simp add: length_fold_row_acc)
  have r2: "work_group N A B nloc N G ?C1 =
              Some (Inr (fold (row_acc N (ref_elem N A B)) [G * nloc..<G * nloc + nloc] ?C1))"
    using assms Suc.prems(1) len1 by (intro work_group_rows) simp_all
  have "[0..<Suc G * nloc] = [0..<G * nloc] @ [G * nloc..<G * nloc + nloc]"
    using upt_add_eq_append [of 0 "G * nloc" nloc] by (simp add: add.commute)
  then show ?case using r1 r2 by (simp add: run_opt_append)
qed

lemma fold_rows_product:
  "fold (row_acc N T) xs C =
     fold (\<lambda>w c. c[(case w of (i, j) \<Rightarrow> i * N + j) :=
                    c ! (case w of (i, j) \<Rightarrow> i * N + j) + (case w of (i, j) \<Rightarrow> T i j)])
       (List.product xs [0..<N]) C"
  by (induction xs arbitrary: C) (simp_all add: fold_map comp_def row_acc_def)

lemma fold_rows_nth:
  assumes "length C = N * N" "i < N" "j < N"
  shows "fold (row_acc N T) [0..<N] C ! (i * N + j) = C ! (i * N + j) + T i j"
proof -
  let ?cell = "\<lambda>w. case w of (i, j) \<Rightarrow> i * N + j"
  let ?val = "\<lambda>w. case w of (i, j) \<Rightarrow> T i j"
  have "fold (\<lambda>w c. c[?cell w := c ! ?cell w + ?val w]) (List.product [0..<N] [0..<N]) C
          ! ?cell (i, j) = C ! ?cell (i, j) + ?val (i, j)"
    using grid_cells_distinct [of N] assms index_in_matrix [of i N j]
    by (intro fold_acc_nth) (simp_all del: upt.simps)
  then show ?thesis by (simp add: fold_rows_product)
qed

lemma tiled_mmul_rows:
  assumes "0 < nloc" "N mod nloc = 0" "N \<le> 1024"
    "length A = N * N" "length B = N * N" "length C = N * N"
  shows "tiled_mmul N nloc A B C = Some (Ran (fold (row_acc N (ref_elem N A B)) [0..<N] C))"
proof -
  have "N div nloc * nloc = N" using assms(2) by auto
  then have "run_opt (work_group N A B nloc N) [0..<N div nloc] C =
               Some (Inr (fold (row_acc N (ref_elem N A B)) [0..<N] C))"
    using groups_rows [OF assms(1,3,4,5), of "N div nloc" C] assms(6) by simp
  then show ?thesis using assms(1,2) by (simp add: tiled_mmul_def)
qed


lemma tiled_mmul_overrun:
  assumes "1024 < N" "0 < nloc" "N mod nloc = 0" "length A = N * N"
  shows "tiled_mmul N nloc A B C = Some (Faulted OutOfBounds)"
proof -
  have "nloc dvd N" using assms(3) by (simp add: mod_eq_0_iff_dvd)
  then have "nloc \<le> N" using assms(1) by (intro dvd_imp_le) simp_all
  then have "0 < N div nloc" using assms(2) by (simp add: div_greater_zero_iff)
  then have "[0..<N div nloc] = 0 # [1..<N div nloc]"
    by (simp add: upt_conv_Cons)
  moreover have "work_group N A B nloc N 0 C = Some (Inl OutOfBounds)"
    using team_run_overrun [OF assms(1,2) _ assms(4), of 0 B] assms(1)
    by (simp add: work_group_def)
  ultimately show ?thesis using assms(2,3) by (simp add: tiled_mmul_def)
qed

section \<open>The tiled launch, cell by cell\<close>

lemma tiled_mmul_map:
  assumes "0 < nloc" "N mod nloc = 0" "N \<le> 1024"
    "length A = N * N" "length B = N * N" "length C = N * N"
  shows "tiled_mmul N nloc A B C =
           Some (Ran (map (\<lambda>p. C ! p + ref_elem N A B (p div N) (p mod N)) [0..<N * N]))"
proof -
  let ?R = "fold (row_acc N (ref_elem N A B)) [0..<N] C"
  have len: "length ?R = N * N"
    using assms(6) by (simp add: length_fold_row_acc)
  have "?R = map (\<lambda>p. C ! p + ref_elem N A B (p div N) (p mod N)) [0..<N * N]"
  proof (rule nth_equalityI)
    show "length ?R = length (map (\<lambda>p. C ! p + ref_elem N A B (p div N) (p mod N)) [0..<N * N])"
      using len by simp
  next
    fix p assume "p < length ?R"
    then have p: "p < N * N" using len by simp
    then have N: "0 < N" by (cases N) simp_all
    have dv: "p div N < N" using p by (simp add: less_mult_imp_div_less)
    have md: "p mod N < N" using N by simp
    have "?R ! (p div N * N + p mod N) =
            C ! (p div N * N + p mod N) + ref_elem N A B (p div N) (p mod N)"
      using assms(6) dv md by (rule fold_rows_nth)
    then show "?R ! p = map (\<lambda>p. C ! p + ref_elem N A B (p div N) (p mod N)) [0..<N * N] ! p"
      using p by simp
  qed
  then show ?thesis using tiled_mmul_rows [OF assms] by simp
qed

lemma tiled_mmul_cells:
  assumes "0 < nloc" "N mod nloc = 0" "N \<le> 1024"
    "length A = N * N" "length B = N * N" "length C = N * N"
  shows "\<exists>C'. tiled_mmul N nloc A B C = Some (Ran C') \<and> length C' = N * N \<and>
           (\<forall>i<N. \<forall>j<N. C' ! (i * N + j) = C ! (i * N + j) + ref_elem N A B i j)"
  using tiled_mmul_map [OF assms] index_in_matrix by auto

lemma ref_elem_const:
  assumes "i < N" "j < N"
  shows "ref_elem N (replicate (N * N) a) (replicate (N * N) b) i j =
           foldl (\<lambda>acc k. acc + a * b) 0 [0..<N]"
  unfolding ref_elem_def
proof (rule foldl_cong)
  fix acc k assume "k \<in> set [0..<N]"
  then have k: "k < N" by simp
  show "acc + replicate (N * N) a ! (i * N + k) * replicate (N * N) b ! (k * N + j) = acc + a * b"
    using index_in_matrix [OF assms(1) k] index_in_matrix [OF k assms(2)] by simp
qed simp_all

lemma map_upt_const: "(\<And>p. p < n \<Longrightarrow> f p = c) \<Longrightarrow> map f [0..<n] = replicate n c"
  by (rule nth_equalityI) simp_all

lemma sixteen_ones: "foldl (\<lambda>acc k. acc + (1::real) * 1) 0 [0..<16] = 16"
  by code_simp

lemma ones_ref:
  "p < 256 \<Longrightarrow> ref_elem 16 (replicate 256 1) (replicate 256 (1::real)) (p div 16) (p mod 16) = 16"
  using ref_elem_const [of "p div 16" 16 "p mod 16" "1::real" 1] sixteen_ones
  by (simp add: less_mult_imp_div_less)

lemma ones_ref_matrix:
  "ref_matrix 16 (replicate 256 1) (replicate 256 (1::real)) = replicate 256 16"
  unfolding ref_matrix_def using ones_ref by (simp add: map_upt_const)

lemma ones_tiled:
  "tiled_mmul 16 1 (replicate 256 1) (replicate 256 1) (replicate 256 (c::real)) =
     Some (Ran (replicate 256 (c + 16)))"
proof -
  have "tiled_mmul 16 1 (replicate 256 1) (replicate 256 1) (replicate 256 c) =
          Some (Ran (map (\<lambda>p. replicate 256 c ! p +
                      ref_elem 16 (replicate 256 1) (replicate 256 (1::real)) (p div 16) (p mod 16))
                    [0..<16 * 16]))"
    by (rule tiled_mmul_map) simp_all
  moreover have "map (\<lambda>p. replicate 256 c ! p +
                      ref_elem 16 (replicate 256 1) (replicate 256 (1::real)) (p div 16) (p mod 16))
                    [0..<16 * 16] = replicate 256 (c + 16)"
    using ones_ref map_upt_const [of 256 _ "c + 16"] by simp
  ultimately show ?thesis by simp
qed

section \<open>Unfolding \<^verbatim>\<open>main\<close>\<close>

lemmas main_unfold =
  main_def try_block_def pick_device_def cl_call_def emit_def host_reps_def kernel_reps_def

section \<open>The claims\<close>

text \<open>
  C1. For every order \<open>N > 0\<close> and all \<open>A\<close> and \<open>B\<close>, the output of the naive
  kernel and of the tiled kernel is the reference result, element by element, within a
  fixed relative tolerance.

  The naive kernel returns the reference (\<open>naive_mmul_ref\<close>). The tiled kernel does
  not: it adds the product to what \<open>C\<close> holds, and \<open>main\<close> never clears the device
  buffer. With order \<open>16\<close>, work-groups of one work-item and matrices of ones, the
  second repetition of the timed loop starts from a buffer of \<open>16\<close>s and leaves \<open>32\<close>
  in every cell where the reference is \<open>16\<close>: only a tolerance of at least \<open>1\<close>
  accepts that. The values are small integers, on which single-precision arithmetic
  is exact.
\<close>

theorem tiled_output_not_reference:
  "tiled_mmul 16 1 (replicate 256 1) (replicate 256 1) (replicate 256 (16::real)) =
     Some (Ran (replicate 256 32)) \<and>
   naive_mmul 16 (replicate 256 1) (replicate 256 1) (replicate 256 (16::real)) =
     Inr (replicate 256 16) \<and>
   ref_matrix 16 (replicate 256 1) (replicate 256 (1::real)) = replicate 256 16 \<and>
   (rel_close tol 32 16 \<longleftrightarrow> 1 \<le> tol)"
proof -
  have "naive_mmul 16 (replicate 256 1) (replicate 256 1) (replicate 256 (16::real)) =
          Inr (ref_matrix 16 (replicate 256 1) (replicate 256 1))"
    by (rule naive_mmul_ref) simp_all
  then show ?thesis
    using ones_tiled [of 16] by (simp add: ones_ref_matrix rel_close_def)
qed

text \<open>
  C2. In the timed loop of the tiled strategy, the \<open>C\<close> read back after repetition
  \<open>r + 1\<close> equals the \<open>C\<close> read back after repetition \<open>r\<close>, because \<open>C\<close> is reset
  to zero before every repetition and then overwritten.

  The loop zeroes the host matrix \<open>h_C\<close> only; the kernel adds to the device buffer
  \<open>d_c\<close>. Two repetitions on matrices of ones of order \<open>16\<close>, from a device buffer
  of zeros, read back \<open>16\<close>s and then \<open>32\<close>s.
\<close>

theorem tiled_loop_accumulates:
  "tiled_loop 2 16 (replicate 256 1) (replicate 256 1)
     \<lparr>h_C = replicate 256 (0::real), d_c = replicate 256 0, read_back = []\<rparr> =
   Some (Ran \<lparr>h_C = replicate 256 32, d_c = replicate 256 32,
              read_back = [replicate 256 16, replicate 256 32]\<rparr>)"
proof -
  have two: "(2::nat) = Suc (Suc 0)" by simp
  show ?thesis
    unfolding two using ones_tiled [of 0] ones_tiled [of 16]
    by (simp add: tiled_rep_def zero_mat_def)
qed

text \<open>
  C3. When a \<^verbatim>\<open>cl::Error\<close> is raised during compilation, launch or execution, the
  process prints a diagnostic to the error stream and ends with a failure status.

  The handler prints the diagnostic and \<open>main\<close> then returns \<^verbatim>\<open>EXIT_SUCCESS\<close>:
  here the build of the program throws, then the launch of the naive kernel, then the
  wait for the tiled kernel, and the status is success each time.
\<close>

theorem cl_error_exits_with_success:
  "main (cl_fails_at BuildProgram) =
     ([Say Cout ''\<newline>Using OpenCL device: gpu\<newline>'', Banner Sequential 16,
       Invoke Sequential, Results Sequential,
       Say Cout ''Exception\<newline>'',
       Say Cerr ''ERROR: cl(CL_BUILD_PROGRAM_FAILURE)\<newline>''], EXIT_SUCCESS) \<and>
   snd (main (cl_fails_at (Enqueue Naive 0))) = EXIT_SUCCESS \<and>
   snd (main (cl_fails_at (Finish Tiled 0))) = EXIT_SUCCESS"
  by (simp add: main_unfold cl_fails_at_def)

text \<open>
  C4. For every device index that is at least the number of available devices, the
  process prints a diagnostic message and ends with a failure status without invoking
  any multiplication strategy.
\<close>

theorem invalid_device_index_fails:
  "getDeviceList e = Inr numDevices \<Longrightarrow> numDevices \<le> deviceIndex e \<Longrightarrow>
   main e = ([Say Cout ''Invalid device index (try '--list')\<newline>''], EXIT_FAILURE) \<and>
   (\<forall>k. Invoke k \<notin> set (fst (main e)))"
  by (simp add: main_def try_block_def pick_device_def)

theorem invalid_device_index_fails_witness:
  "getDeviceList ((cl_fails_at BuildProgram)\<lparr>deviceIndex := 3\<rparr>) = Inr 1 \<and>
   1 \<le> deviceIndex ((cl_fails_at BuildProgram)\<lparr>deviceIndex := 3\<rparr>) \<and>
   main ((cl_fails_at BuildProgram)\<lparr>deviceIndex := 3\<rparr>) =
     ([Say Cout ''Invalid device index (try '--list')\<newline>''], EXIT_FAILURE)"
  using invalid_device_index_fails [of "(cl_fails_at BuildProgram)\<lparr>deviceIndex := 3\<rparr>" 1]
  by (simp add: cl_fails_at_def)




text \<open>
  C6. In the tiled kernel, for every work-item \<open>i < N\<close> and every column \<open>j\<close>, the
  value \<open>tmp\<close> accumulated for the column is the sum over \<open>k\<close> below \<open>N\<close> of
  \<open>PrivateRow[k] * B[k*N+j]\<close>, with the factors of \<open>B\<close> read from the global matrix
  and not from the scratch buffer, on whose contents \<open>tmp\<close> does not depend.

  The private row has 1024 cells. At order \<open>2048\<close> the work-item overruns it while
  loading, before any sum, and the accumulation loop on a row of 1024 cells reads
  beyond it as well.
\<close>

theorem no_sum_beyond_private_row:
  "optimized_rowCPerWorkItemAPrivateBLocal_mmul 2048
     (replicate (2048 * 2048) 1) (replicate (2048 * 2048) 1) (0, 0, 2048 div 16)
     \<lparr>gC = replicate (2048 * 2048) (0::real), Bwrk = replicate 2048 None, staged = []\<rparr> =
   Some (Inl OutOfBounds) \<and>
   accumulate 2048 (replicate 1024 (Some 1)) (replicate (2048 * 2048) 1) 0 0
     \<lparr>gC = replicate (2048 * 2048) (0::real), Bwrk = replicate 2048 None, staged = []\<rparr> =
   Inl OutOfBounds"
proof -
  have "dot_loop 2048 (replicate 1024 (Some 1)) (replicate (2048 * 2048) (1::real)) 0 0 0 =
          Inl OutOfBounds"
    by (rule dot_loop_overrun [where row = "\<lambda>k. 1"]) simp_all
  moreover have "optimized_rowCPerWorkItemAPrivateBLocal_mmul 2048
     (replicate (2048 * 2048) 1) (replicate (2048 * 2048) 1) (0, 0, 2048 div 16)
     \<lparr>gC = replicate (2048 * 2048) (0::real), Bwrk = replicate 2048 None, staged = []\<rparr> =
   Some (Inl OutOfBounds)"
    by (rule worker_overrun) simp_all
  ultimately show ?thesis by (simp add: accumulate_def)
qed

text \<open>
  C6, amended. In the tiled kernel, for every order \<open>N \<le> 1024\<close>, every work-item
  \<open>i < N\<close> and every column \<open>j\<close>, the value \<open>tmp\<close> accumulated for the column is
  the sum over \<open>k\<close> below \<open>N\<close>, from left to right, of \<open>PrivateRow[k] * B[k*N+j]\<close>,
  where the private row holds row \<open>i\<close> of \<open>A\<close> and the factors of \<open>B\<close> are those
  of the global matrix: the work-item returns and marks that one sum for the column,
  whatever the scratch buffer holds when it starts.
\<close>

theorem tmp_is_private_row_times_column:
  assumes "N \<le> 1024" "0 < nloc" "i < N" "j < N"
    "length A = N * N" "length B = N * N" "length (gC s) = N * N" "N \<le> length X"
  shows "\<exists>Awrk s'. load_row N A i 0 Awrk_init = Inr Awrk \<and>
           (\<forall>k<N. Awrk ! k = Some (A ! (i * N + k))) \<and>
           optimized_rowCPerWorkItemAPrivateBLocal_mmul N A B (i, iloc, nloc)
             (s\<lparr>Bwrk := X, staged := []\<rparr>) = Some (Inr s') \<and>
           filter (sums_cell i j) (staged s') =
             [Tmp i j (foldl (\<lambda>acc k. acc + the (Awrk ! k) * B ! (k * N + j)) 0 [0..<N])]"
proof -
  obtain Awrk where ld: "load_row N A i 0 Awrk_init = Inr Awrk"
    and cells: "\<forall>k<N. Awrk ! k = Some (A ! (i * N + k))"
    using load_row_cells [of N Awrk_init i A] assms(1,3,5) by (auto simp: Awrk_init_def)
  have "\<exists>s'. optimized_rowCPerWorkItemAPrivateBLocal_mmul N A B (i, iloc, nloc)
               (s\<lparr>Bwrk := X, staged := []\<rparr>) = Some (Inr s') \<and>
          length (Bwrk s') = length (Bwrk (s\<lparr>Bwrk := X, staged := []\<rparr>)) \<and>
          staged s' = staged (s\<lparr>Bwrk := X, staged := []\<rparr>) @
                        item_marks N nloc i iloc (ref_elem N A B i) 0 \<and>
          gC s' = row_acc N (ref_elem N A B) i (gC (s\<lparr>Bwrk := X, staged := []\<rparr>))"
    using assms(2,3,1,5,6,7,8) by (intro worker_row) simp_all
  then obtain s' where run:
    "optimized_rowCPerWorkItemAPrivateBLocal_mmul N A B (i, iloc, nloc)
       (s\<lparr>Bwrk := X, staged := []\<rparr>) = Some (Inr s')"
    and mk: "staged s' = item_marks N nloc i iloc (ref_elem N A B i) 0"
    by auto
  have "ref_elem N A B i j = foldl (\<lambda>acc k. acc + the (Awrk ! k) * B ! (k * N + j)) 0 [0..<N]"
    unfolding ref_elem_def using cells by (intro foldl_cong) simp_all
  then have "filter (sums_cell i j) (staged s') =
               [Tmp i j (foldl (\<lambda>acc k. acc + the (Awrk ! k) * B ! (k * N + j)) 0 [0..<N])]"
    using mk item_marks_sums [OF assms(4), of i nloc iloc "ref_elem N A B i"] by simp
  then show ?thesis using ld cells run by blast
qed

theorem tmp_is_private_row_times_column_witness:
  "\<exists>Awrk s'. load_row 2 [1, 2, 3, 4 :: int] 1 0 Awrk_init = Inr Awrk \<and>
      Awrk ! 0 = Some 3 \<and> Awrk ! 1 = Some 4 \<and>
      optimized_rowCPerWorkItemAPrivateBLocal_mmul 2 [1, 2, 3, 4] [5, 6, 7, 8 :: int] (1, 1, 2)
        (\<lparr>gC = [0, 0, 0, 0], Bwrk = [], staged = [Barrier 9 9]\<rparr>\<lparr>Bwrk := [Some 100, None], staged := []\<rparr>) =
      Some (Inr s') \<and>
      filter (sums_cell 1 0) (staged s') = [Tmp 1 0 43]"
proof -
  obtain Awrk s' where w:
    "load_row 2 [1, 2, 3, 4 :: int] 1 0 Awrk_init = Inr Awrk"
    "\<forall>k<2. Awrk ! k = Some ([1, 2, 3, 4] ! (1 * 2 + k))"
    "optimized_rowCPerWorkItemAPrivateBLocal_mmul 2 [1, 2, 3, 4] [5, 6, 7, 8] (1, 1, 2)
       (\<lparr>gC = [0, 0, 0, 0], Bwrk = [], staged = [Barrier 9 9]\<rparr>\<lparr>Bwrk := [Some 100, None], staged := []\<rparr>) =
     Some (Inr s')"
    "filter (sums_cell 1 0) (staged s') =
       [Tmp 1 0 (foldl (\<lambda>acc k. acc + the (Awrk ! k) * [5, 6, 7, 8] ! (k * 2 + 0)) 0 [0..<2])]"
    using tmp_is_private_row_times_column
      [of 2 2 1 0 "[1, 2, 3, 4 :: int]" "[5, 6, 7, 8]"
          "\<lparr>gC = [0, 0, 0, 0], Bwrk = [], staged = [Barrier 9 9]\<rparr>" "[Some 100, None]" 1]
    by auto
  have c: "Awrk ! 0 = Some 3" "Awrk ! 1 = Some 4"
    using w(2) by (simp_all add: less_Suc_eq numeral_2_eq_2)
  then have "foldl (\<lambda>acc k. acc + the (Awrk ! k) * [5, 6, 7, 8] ! (k * 2 + 0)) 0 [0..<2] = 43"
    by (simp add: upt_rec)
  then show ?thesis using w c by auto
qed

text \<open>
  C7. A work-item whose index is out of range, \<open>(i, j)\<close> outside \<open>[0,N) \<times> [0,N)\<close>
  in the naive kernel or \<open>i \<ge> N\<close> in the tiled kernel, computes nothing and writes
  nothing: \<open>C\<close>, and in the tiled kernel the scratch buffer, are as they were.
\<close>

theorem out_of_range_worker_idle:
  "(\<not> (i < N \<and> j < N) \<longrightarrow> mmul N A B (i, j) C = Inr C) \<and>
   (N \<le> i \<longrightarrow> optimized_rowCPerWorkItemAPrivateBLocal_mmul N A B (i, iloc, nloc) s = Some (Inr s))"
  by (simp add: mmul_def optimized_rowCPerWorkItemAPrivateBLocal_mmul_def)

theorem out_of_range_worker_idle_witness:
  "mmul 2 [1, 2, 3, 4] [5, 6, 7, 8] (1, 2) [9, 9, 9, 9 :: int] = Inr [9, 9, 9, 9] \<and>
   optimized_rowCPerWorkItemAPrivateBLocal_mmul 2 [1, 2, 3, 4] [5, 6, 7, 8] (2, 0, 1)
     \<lparr>gC = [9, 9, 9, 9 :: int], Bwrk = [None, Some 1], staged = []\<rparr> =
   Some (Inr \<lparr>gC = [9, 9, 9, 9], Bwrk = [None, Some 1], staged = []\<rparr>)"
  using out_of_range_worker_idle
    [of 1 2 2 "[1, 2, 3, 4]" "[5, 6, 7, 8]" "[9, 9, 9, 9 :: int]"]
    out_of_range_worker_idle
    [of 2 2 0 "[1, 2, 3, 4]" "[5, 6, 7, 8]" "[9, 9, 9, 9 :: int]" 0 1
        "\<lparr>gC = [9, 9, 9, 9 :: int], Bwrk = [None, Some 1], staged = []\<rparr>"]
  by simp

text \<open>
  C8. In the tiled kernel, for every work-item \<open>i < N\<close> and every order \<open>N\<close>, the
  first loop copies row \<open>i\<close> of \<open>A\<close> into a private buffer sized for \<open>N\<close> elements,
  every write in bounds.

  The private buffer has 1024 cells whatever \<open>N\<close> is. At order \<open>1025\<close> the write
  with \<open>k = 1024\<close> is out of bounds.
\<close>

theorem private_row_overrun:
  "load_row 1025 (replicate (1025 * 1025) (0::real)) 0 0 Awrk_init = Inl OutOfBounds"
  by (rule load_row_overrun) (simp_all add: Awrk_init_def)

text \<open>
  C8, amended. For every order \<open>N \<le> 1024\<close> and every work-item \<open>i < N\<close>, the
  first loop returns without a fault, and the first \<open>N\<close> of the 1024 cells of the
  private buffer then hold row \<open>i\<close> of \<open>A\<close>.
\<close>

theorem private_row_in_bounds:
  assumes "N \<le> 1024" "i < N" "length A = N * N"
  shows "\<exists>Awrk. load_row N A i 0 Awrk_init = Inr Awrk \<and> length Awrk = 1024 \<and>
           (\<forall>k<N. Awrk ! k = Some (A ! (i * N + k)))"
  using load_row_cells [of N Awrk_init i A] assms by (simp add: Awrk_init_def)

theorem private_row_in_bounds_witness:
  "\<exists>Awrk. load_row 2 [1, 2, 3, 4 :: int] 1 0 Awrk_init = Inr Awrk \<and> length Awrk = 1024 \<and>
           Awrk ! 0 = Some 3 \<and> Awrk ! 1 = Some 4"
  using private_row_in_bounds [of 2 1 "[1, 2, 3, 4 :: int]"]
  by (auto simp: less_Suc_eq numeral_2_eq_2)

text \<open>
  C9. For every \<open>N > 0\<close>, \<open>A\<close>, \<open>B\<close> and every \<open>(i, j)\<close> below \<open>N\<close>, the launch
  of the naive kernel returns, and its output \<open>C[i*N+j]\<close> is exactly the accumulation,
  from left to right and starting at zero, of \<open>A[i*N+k] * B[k*N+j]\<close> for \<open>k\<close> from
  \<open>0\<close> to \<open>N - 1\<close>. The equality holds for every addition and multiplication, with
  no law assumed of them.
\<close>

theorem naive_is_left_to_right_sum:
  assumes "i < N" "j < N" "length A = N * N" "length B = N * N" "length C = N * N"
  shows "\<exists>C'. naive_mmul N A B C = Inr C' \<and>
           C' ! (i * N + j) = foldl (\<lambda>acc k. acc + A ! (i * N + k) * B ! (k * N + j)) 0 [0..<N]"
proof -
  have "i * N + j < N * N" using assms(1,2) by (rule index_in_matrix)
  then have "ref_matrix N A B ! (i * N + j) = ref_elem N A B i j"
    using assms(2) by (simp add: ref_matrix_def)
  then show ?thesis
    using naive_mmul_ref [OF assms(3-5)] by (simp add: ref_elem_def)
qed

theorem naive_is_left_to_right_sum_witness:
  "\<exists>C'. naive_mmul 2 [1, 2, 3, 4] [5, 6, 7, 8] [9, 9, 9, 9 :: int] = Inr C' \<and> C' ! 2 = 43"
  using naive_is_left_to_right_sum [of 1 2 0 "[1, 2, 3, 4]" "[5, 6, 7, 8]" "[9, 9, 9, 9 :: int]"]
  by (simp add: upt_rec)

text \<open>
  C10. The tiled kernel accumulates rather than overwrites: for every initial
  contents \<open>V\<close> of \<open>C\<close> and every work-item \<open>i < N\<close>, after the kernel has run
  \<open>C[i*N+j]\<close> is \<open>V[i*N+j]\<close> plus the dot product of row \<open>i\<close> of \<open>A\<close> and
  column \<open>j\<close> of \<open>B\<close>, for every \<open>j\<close> below \<open>N\<close>; the naive kernel assigns, so
  its output does not depend on what \<open>C\<close> held.

  At order \<open>2048\<close>, in the groups of \<open>2048 / 16\<close> of \<open>main\<close>, the launch of the
  tiled kernel ends in the overrun of the private row and returns no \<open>C\<close>.
\<close>

theorem tiled_launch_overruns:
  "tiled_mmul 2048 (2048 div 16) (replicate (2048 * 2048) 1) (replicate (2048 * 2048) 1)
     (replicate (2048 * 2048) (0::real)) = Some (Faulted OutOfBounds)"
  by (rule tiled_mmul_overrun) simp_all

text \<open>
  C10, amended. For every order \<open>N \<le> 1024\<close> and every launch that the runtime
  accepts (a group size that divides \<open>N\<close>), the tiled kernel accumulates: for every
  initial contents \<open>V\<close> of \<open>C\<close> the launch returns, and \<open>C[i*N+j]\<close> is then
  \<open>V[i*N+j]\<close> plus the dot product of row \<open>i\<close> of \<open>A\<close> and column \<open>j\<close> of
  \<open>B\<close>, for all \<open>i\<close> and \<open>j\<close> below \<open>N\<close>. The naive kernel assigns: its output is
  the reference whatever \<open>C\<close> held, the same for any two initial contents.
\<close>

theorem tiled_accumulates_naive_overwrites:
  assumes "0 < nloc" "N mod nloc = 0" "N \<le> 1024"
    "length A = N * N" "length B = N * N" "length V = N * N" "length V' = N * N"
  shows "(\<exists>C'. tiled_mmul N nloc A B V = Some (Ran C') \<and> length C' = N * N \<and>
            (\<forall>i<N. \<forall>j<N. C' ! (i * N + j) = V ! (i * N + j) + ref_elem N A B i j)) \<and>
         naive_mmul N A B V = Inr (ref_matrix N A B) \<and>
         naive_mmul N A B V' = Inr (ref_matrix N A B)"
  using tiled_mmul_cells [OF assms(1-6)] naive_mmul_ref [OF assms(4,5,6)]
    naive_mmul_ref [OF assms(4,5,7)]
  by simp

theorem tiled_accumulates_naive_overwrites_witness:
  "(\<exists>C'. tiled_mmul 2 1 [1, 2, 3, 4] [5, 6, 7, 8] [100, 200, 300, 400 :: int] = Some (Ran C') \<and>
      C' ! 2 = 300 + 43) \<and>
   naive_mmul 2 [1, 2, 3, 4] [5, 6, 7, 8] [100, 200, 300, 400 :: int] =
   naive_mmul 2 [1, 2, 3, 4] [5, 6, 7, 8] [0, 0, 0, 0]"
proof -
  have r: "ref_elem 2 [1, 2, 3, 4] [5, 6, 7, 8 :: int] 1 0 = 43"
    by (simp add: ref_elem_def upt_rec)
  show ?thesis
    using tiled_accumulates_naive_overwrites
      [of 1 2 "[1, 2, 3, 4]" "[5, 6, 7, 8]" "[100, 200, 300, 400 :: int]" "[0, 0, 0, 0]"] r
    by (auto simp: less_Suc_eq numeral_2_eq_2)
qed

end
